theory Spec2Isabelle
  imports Complex_Main "HOL-Library.Multiset" "HOL-Library.AList"
begin

section \<open>EcoVision: waste-collection route planner (utils/plastic_route.py)\<close>

text \<open>
  Python floats are modelled as real numbers: rounding, infinities and NaN are not
  represented.  The exceptions of the source are values of the type \<open>error\<close>; a
  function that can raise returns \<open>error + 'a\<close>, with \<open>Inl\<close> for the exception.
  \<open>InvalidParameter\<close> is the error the specification gives the clusterer; nothing in
  \<open>plastic_route.py\<close> raises it.
\<close>

datatype error = IndexError | TypeError | ValueError | KeyError | InvalidParameter

type_synonym point = "real \<times> real"

subsection \<open>Distance function (haversine)\<close>

definition radians :: "real \<Rightarrow> real" where
  "radians d = d * pi / 180"

text \<open>\<open>math.sqrt\<close> and \<open>math.asin\<close> raise ValueError outside their domains.\<close>

definition py_sqrt :: "real \<Rightarrow> error + real" where
  "py_sqrt x = (if x < 0 then Inl ValueError else Inr (sqrt x))"

definition py_asin :: "real \<Rightarrow> error + real" where
  "py_asin x = (if x < - 1 \<or> 1 < x then Inl ValueError else Inr (arcsin x))"

definition hav_a :: "real \<Rightarrow> real \<Rightarrow> real \<Rightarrow> real \<Rightarrow> real" where
  "hav_a lat1 lon1 lat2 lon2 =
     (let dlon = lon2 - lon1;
          dlat = lat2 - lat1
      in (sin (dlat / 2))\<^sup>2 + cos lat1 * cos lat2 * (sin (dlon / 2))\<^sup>2)"

definition haversine :: "real \<Rightarrow> real \<Rightarrow> real \<Rightarrow> real \<Rightarrow> error + real" where
  "haversine lat1 lon1 lat2 lon2 =
     (let a = hav_a (radians lat1) (radians lon1) (radians lat2) (radians lon2)
      in case py_sqrt a of
           Inl e \<Rightarrow> Inl e
         | Inr s \<Rightarrow>
             (case py_asin s of
                Inl e \<Rightarrow> Inl e
              | Inr t \<Rightarrow> Inr (6371 * (2 * t))))"

subsection \<open>Route optimisation (greedy nearest neighbour)\<close>

text \<open>
  Subscripting a Python list by an integer: \<open>xs[i]\<close> reads position \<open>i\<close> when
  \<open>0 \<le> i < len(xs)\<close>, position \<open>len(xs) + i\<close> when \<open>-len(xs) \<le> i < 0\<close>, and
  raises IndexError for every other \<open>i\<close>.
\<close>

definition py_index :: "'a list \<Rightarrow> int \<Rightarrow> error + 'a" where
  "py_index xs i =
     (if 0 \<le> i \<and> i < int (length xs) then Inr (xs ! nat i)
      else if - int (length xs) \<le> i \<and> i < 0 then Inr (xs ! nat (int (length xs) + i))
      else Inl IndexError)"

text \<open>The value of \<open>min_dist\<close>: \<open>float("inf")\<close> or a distance found so far.\<close>

datatype bound = Infinity | Dist real

fun below :: "real \<Rightarrow> bound \<Rightarrow> bool" where
  "below d Infinity = True"
| "below d (Dist m) = (d < m)"

text \<open>
  The \<open>for i, p in enumerate(points)\<close> loop: the state is \<open>(min_dist, next_idx)\<close>,
  where \<open>next_idx = None\<close> is Python's \<open>None\<close>.
\<close>

fun nearest ::
  "point \<Rightarrow> int list \<Rightarrow> (nat \<times> point) list \<Rightarrow> bound \<times> nat option \<Rightarrow> error + (bound \<times> nat option)"
where
  "nearest last_stop visited [] st = Inr st"
| "nearest last_stop visited ((i, p) # ips) (min_dist, next_idx) =
     (if int i \<in> set visited then nearest last_stop visited ips (min_dist, next_idx)
      else
        (case haversine (fst last_stop) (snd last_stop) (fst p) (snd p) of
           Inl e \<Rightarrow> Inl e
         | Inr d \<Rightarrow>
             if below d min_dist
             then nearest last_stop visited ips (Dist d, Some i)
             else nearest last_stop visited ips (min_dist, next_idx)))"

text \<open>
  The \<open>while len(visited) < len(points)\<close> loop on the state \<open>(visited, route)\<close>;
  it returns the state at loop exit.  \<open>route[-1]\<close> raises IndexError on an empty
  route, and \<open>points[None]\<close> raises TypeError.
\<close>

function route_loop ::
  "point list \<Rightarrow> int list \<Rightarrow> point list \<Rightarrow> error + (int list \<times> point list)"
where
  "route_loop points visited route =
     (if length visited < length points then
        (case py_index route (- 1) of
           Inl e \<Rightarrow> Inl e
         | Inr last_stop \<Rightarrow>
             (case nearest last_stop visited (enumerate 0 points) (Infinity, None) of
                Inl e \<Rightarrow> Inl e
              | Inr (min_dist, None) \<Rightarrow> Inl TypeError
              | Inr (min_dist, Some next_idx) \<Rightarrow>
                  (case py_index points (int next_idx) of
                     Inl e \<Rightarrow> Inl e
                   | Inr p \<Rightarrow> route_loop points (visited @ [int next_idx]) (route @ [p]))))
      else Inr (visited, route))"
  by pat_completeness auto
termination
  by (relation "measure (\<lambda>(points, visited, route). length points - length visited)") auto

declare route_loop.simps [simp del]

definition optimize_route :: "point list \<Rightarrow> int \<Rightarrow> error + point list" where
  "optimize_route points start_index =
     (if length points = 0 then Inr []
      else
        (case py_index points start_index of
           Inl e \<Rightarrow> Inl e
         | Inr p \<Rightarrow> map_sum id snd (route_loop points [start_index] [p])))"

text \<open>A call site: \<open>None\<close> is a call that leaves \<open>start_index\<close> out (default \<open>0\<close>).\<close>

definition optimize_route_call :: "point list \<Rightarrow> int option \<Rightarrow> error + point list" where
  "optimize_route_call points arg =
     optimize_route points (case arg of None \<Rightarrow> 0 | Some i \<Rightarrow> i)"

subsection \<open>The route builder over the distances of the machine\<close>

text \<open>
  In the program a distance is a floating-point number, the rounded value of the
  haversine formula: two distances that are equal as real numbers can differ in their
  last digits there, and the comparison \<open>dist < min_dist\<close> is made on the rounded values.
  \<open>nearest_by\<close>, \<open>route_loop_by\<close> and \<open>optimize_route_by\<close> are the three functions above
  with the distance function as the parameter \<open>hav\<close>: any function from four coordinates
  to a distance or an exception, among them \<open>haversine\<close> on the reals and \<open>haversine\<close> as
  evaluated in floating point.
\<close>

type_synonym distance = "real \<Rightarrow> real \<Rightarrow> real \<Rightarrow> real \<Rightarrow> error + real"

fun nearest_by ::
  "distance \<Rightarrow> point \<Rightarrow> int list \<Rightarrow> (nat \<times> point) list \<Rightarrow> bound \<times> nat option
     \<Rightarrow> error + (bound \<times> nat option)"
where
  "nearest_by hav last_stop visited [] st = Inr st"
| "nearest_by hav last_stop visited ((i, p) # ips) (min_dist, next_idx) =
     (if int i \<in> set visited then nearest_by hav last_stop visited ips (min_dist, next_idx)
      else
        (case hav (fst last_stop) (snd last_stop) (fst p) (snd p) of
           Inl e \<Rightarrow> Inl e
         | Inr d \<Rightarrow>
             if below d min_dist
             then nearest_by hav last_stop visited ips (Dist d, Some i)
             else nearest_by hav last_stop visited ips (min_dist, next_idx)))"

function route_loop_by ::
  "distance \<Rightarrow> point list \<Rightarrow> int list \<Rightarrow> point list \<Rightarrow> error + (int list \<times> point list)"
where
  "route_loop_by hav points visited route =
     (if length visited < length points then
        (case py_index route (- 1) of
           Inl e \<Rightarrow> Inl e
         | Inr last_stop \<Rightarrow>
             (case nearest_by hav last_stop visited (enumerate 0 points) (Infinity, None) of
                Inl e \<Rightarrow> Inl e
              | Inr (min_dist, None) \<Rightarrow> Inl TypeError
              | Inr (min_dist, Some next_idx) \<Rightarrow>
                  (case py_index points (int next_idx) of
                     Inl e \<Rightarrow> Inl e
                   | Inr p \<Rightarrow> route_loop_by hav points (visited @ [int next_idx]) (route @ [p]))))
      else Inr (visited, route))"
  by pat_completeness auto
termination
  by (relation "measure (\<lambda>(hav, points, visited, route). length points - length visited)") auto

declare route_loop_by.simps [simp del]

definition optimize_route_by :: "distance \<Rightarrow> point list \<Rightarrow> int \<Rightarrow> error + point list" where
  "optimize_route_by hav points start_index =
     (if length points = 0 then Inr []
      else
        (case py_index points start_index of
           Inl e \<Rightarrow> Inl e
         | Inr p \<Rightarrow> map_sum id snd (route_loop_by hav points [start_index] [p])))"

subsection \<open>Data frames\<close>

text \<open>
  A pandas column holds floats or integers; a data frame has an index of \<open>index_len\<close>
  rows and named columns, kept in insertion order.  Data frames are objects: a variable
  holds a reference, and the store maps references to the frames they denote.
\<close>

datatype column = FloatCol "real list" | IntCol "int list"

record dataframe =
  index_len :: nat
  cols :: "(string \<times> column) list"

type_synonym store = "nat \<Rightarrow> dataframe"

fun col_len :: "column \<Rightarrow> nat" where
  "col_len (FloatCol xs) = length xs"
| "col_len (IntCol xs) = length xs"

fun numeric :: "column \<Rightarrow> real list" where
  "numeric (FloatCol xs) = xs"
| "numeric (IntCol xs) = map real_of_int xs"

text \<open>\<open>df[c]\<close> raises KeyError when the frame has no column \<open>c\<close>.\<close>

definition get_col :: "dataframe \<Rightarrow> string \<Rightarrow> error + column" where
  "get_col df c = (case map_of (cols df) c of None \<Rightarrow> Inl KeyError | Some col \<Rightarrow> Inr col)"

text \<open>\<open>df[[a, b]].values\<close>: the rows of the columns \<open>a\<close> and \<open>b\<close>, as numbers.\<close>

definition values2 :: "dataframe \<Rightarrow> string \<Rightarrow> string \<Rightarrow> error + point list" where
  "values2 df a b =
     (case get_col df a of
        Inl e \<Rightarrow> Inl e
      | Inr ca \<Rightarrow>
          (case get_col df b of
             Inl e \<Rightarrow> Inl e
           | Inr cb \<Rightarrow> Inr (zip (numeric ca) (numeric cb))))"

text \<open>
  \<open>df[c] = values\<close> adds the column or replaces it in place; pandas raises ValueError
  when the length of the values differs from the length of the index.
\<close>

definition set_col :: "dataframe \<Rightarrow> string \<Rightarrow> column \<Rightarrow> error + dataframe" where
  "set_col df c col =
     (if col_len col \<noteq> index_len df then Inl ValueError
      else Inr (df\<lparr>cols := AList.update c col (cols df)\<rparr>))"

subsection \<open>Hotspot clustering\<close>

text \<open>
  \<open>KMeans(n_clusters, random_state=42).fit_predict(coords)\<close> is scikit-learn code, which
  is not part of the repository: it is a parameter \<open>fit_predict\<close> of the functions that
  call it, returning the labels and \<open>cluster_centers_\<close>, or an error.
\<close>

type_synonym kmeans = "point list \<Rightarrow> int \<Rightarrow> error + (nat list \<times> point list)"

text \<open>
  \<open>cluster_hotspots\<close> takes the store and the reference \<open>df\<close> of the caller's frame; it
  returns the store after the call, the returned reference and the centres.
\<close>

definition cluster_hotspots ::
  "kmeans \<Rightarrow> store \<Rightarrow> nat \<Rightarrow> string \<Rightarrow> string \<Rightarrow> int \<Rightarrow> error + (store \<times> nat \<times> point list)"
where
  "cluster_hotspots fit_predict st df lat_col lon_col n_clusters =
     (case values2 (st df) lat_col lon_col of
        Inl e \<Rightarrow> Inl e
      | Inr coords \<Rightarrow>
          (case fit_predict coords n_clusters of
             Inl e \<Rightarrow> Inl e
           | Inr (labels, centers) \<Rightarrow>
               (case set_col (st df) ''Cluster'' (IntCol (map int labels)) of
                  Inl e \<Rightarrow> Inl e
                | Inr df' \<Rightarrow> Inr (st(df := df'), df, centers))))"

subsection \<open>The clusterer of the specification\<close>

text \<open>
  Modelled from the spec: the clusterer \<open>KMeans\<close> that \<open>cluster_hotspots\<close> calls is
  scikit-learn code and is missing from the sources.  Section 4.2 of the specification
  describes it: Lloyd's k-means on the pairs \<open>(lat, lon)\<close> as points of the plane.  A
  point goes to the centroid of minimum squared Euclidean distance, the lowest index
  among equals; a centroid becomes the mean of the points assigned to it; the iteration
  stops when no point changes its cluster or at the iteration cap.  The clusterer
  fails with \<open>InvalidParameter\<close> if \<open>k > n\<close> or \<open>k < 1\<close> or the point set is empty.  The
  seeding is the parameter \<open>init\<close>, a function of the points and \<open>k\<close>.  The
  specification does not say what becomes of a centroid without points: it is kept.
\<close>

text \<open>Modelled from the spec: the squared Euclidean distance in \<open>(lat, lon)\<close> space (KMeans is missing).\<close>

definition sqdist :: "point \<Rightarrow> point \<Rightarrow> real" where
  "sqdist p c = (fst p - fst c)\<^sup>2 + (snd p - snd c)\<^sup>2"

text \<open>Modelled from the spec: the scan of the centroids for the nearest one, the lowest index among equals (KMeans is missing).\<close>

fun closest :: "point \<Rightarrow> point list \<Rightarrow> nat \<Rightarrow> nat \<times> real \<Rightarrow> nat" where
  "closest p [] i (best, d) = best"
| "closest p (c # cs) i (best, d) =
     (if sqdist p c < d then closest p cs (Suc i) (i, sqdist p c)
      else closest p cs (Suc i) (best, d))"

text \<open>Modelled from the spec: the index of the centroid a point is assigned to (KMeans is missing).\<close>

definition assign :: "point list \<Rightarrow> point \<Rightarrow> nat" where
  "assign centers p =
     (case centers of [] \<Rightarrow> 0 | c # cs \<Rightarrow> closest p cs 1 (0, sqdist p c))"

text \<open>Modelled from the spec: the points with label \<open>j\<close>, in input order (KMeans is missing).\<close>

definition members :: "point list \<Rightarrow> nat list \<Rightarrow> nat \<Rightarrow> point list" where
  "members coords labels j = map fst (filter (\<lambda>(p, l). l = j) (zip coords labels))"

text \<open>Modelled from the spec: the arithmetic mean of the coordinates (KMeans is missing).\<close>

definition mean_point :: "point list \<Rightarrow> point" where
  "mean_point ps =
     (sum_list (map fst ps) / real (length ps), sum_list (map snd ps) / real (length ps))"

text \<open>Modelled from the spec: every centroid becomes the mean of its points (KMeans is missing).\<close>

definition recompute :: "point list \<Rightarrow> nat list \<Rightarrow> point list \<Rightarrow> point list" where
  "recompute coords labels centers =
     map (\<lambda>(j, c). if members coords labels j = [] then c
                   else mean_point (members coords labels j))
       (enumerate 0 centers)"

text \<open>
  Modelled from the spec: the iteration of assignment and update (KMeans is missing).
  \<open>lloyd cap coords centers labels\<close>: \<open>labels\<close> is the assignment of the iteration before
  (\<open>[]\<close> before the first one) and \<open>cap\<close> the number of iterations allowed after this one.
\<close>

fun lloyd :: "nat \<Rightarrow> point list \<Rightarrow> point list \<Rightarrow> nat list \<Rightarrow> nat list \<times> point list" where
  "lloyd 0 coords centers labels =
     (let labels' = map (assign centers) coords
      in (labels', recompute coords labels' centers))"
| "lloyd (Suc cap) coords centers labels =
     (let labels' = map (assign centers) coords;
          centers' = recompute coords labels' centers
      in if labels' = labels then (labels', centers')
         else lloyd cap coords centers' labels')"

text \<open>Modelled from the spec: the contract \<open>1 \<le> k \<le> n\<close> of the clusterer, then the iteration (KMeans is missing).\<close>

definition kmeans_fit_predict :: "(point list \<Rightarrow> nat \<Rightarrow> point list) \<Rightarrow> nat \<Rightarrow> kmeans" where
  "kmeans_fit_predict init max_iter coords k =
     (if k < 1 \<or> int (length coords) < k \<or> coords = [] then Inl InvalidParameter
      else Inr (lloyd (max_iter - 1) coords (init coords (nat k)) []))"

subsection \<open>Full pipeline\<close>

text \<open>\<open>str\<close> of a Python integer, as used by the f-string \<open>f"Cluster_{cluster_id}"\<close>.\<close>

definition digit_char :: "nat \<Rightarrow> char" where
  "digit_char d = char_of (48 + d)"

function str_nat :: "nat \<Rightarrow> string" where
  "str_nat n = (if n < 10 then [digit_char n] else str_nat (n div 10) @ [digit_char (n mod 10)])"
  by pat_completeness auto
termination
  by (relation "measure id") auto

declare str_nat.simps [simp del]

definition str_int :: "int \<Rightarrow> string" where
  "str_int i = (if i < 0 then CHR ''-'' # str_nat (nat (- i)) else str_nat (nat i))"

text \<open>
  \<open>df[df["Cluster"] == cluster_id][[lat_col, lon_col]].values.tolist()\<close>: the rows whose
  label is \<open>cluster_id\<close>, in the order of the frame.  The column \<open>Cluster\<close> holds the
  integer labels written by \<open>cluster_hotspots\<close>.
\<close>

definition cluster_labels :: "dataframe \<Rightarrow> error + int list" where
  "cluster_labels df =
     (case get_col df ''Cluster'' of
        Inl e \<Rightarrow> Inl e
      | Inr (IntCol ls) \<Rightarrow> Inr ls
      | Inr (FloatCol xs) \<Rightarrow> Inl TypeError)"

definition cluster_points :: "dataframe \<Rightarrow> string \<Rightarrow> string \<Rightarrow> int \<Rightarrow> error + point list" where
  "cluster_points df lat_col lon_col cluster_id =
     (case cluster_labels df of
        Inl e \<Rightarrow> Inl e
      | Inr ls \<Rightarrow>
          (case values2 df lat_col lon_col of
             Inl e \<Rightarrow> Inl e
           | Inr rows \<Rightarrow> Inr (map snd (filter (\<lambda>(l, p). l = cluster_id) (zip ls rows)))))"

text \<open>
  The \<open>for cluster_id in sorted(...)\<close> loop; the dict \<open>routes\<close> is an association list in
  insertion order, and \<open>routes[key] = route\<close> replaces the value of a key already there.
  \<open>optimize_route(cluster_points)\<close> leaves \<open>start_index\<close> out, which is then \<open>0\<close>.  The
  distance function is the parameter \<open>hav\<close> of the route builder.
\<close>

type_synonym routes = "(string \<times> point list) list"

fun collect_routes ::
  "distance \<Rightarrow> dataframe \<Rightarrow> string \<Rightarrow> string \<Rightarrow> int list \<Rightarrow> routes \<Rightarrow> error + routes"
where
  "collect_routes hav df lat_col lon_col [] routes = Inr routes"
| "collect_routes hav df lat_col lon_col (cluster_id # ids) routes =
     (case cluster_points df lat_col lon_col cluster_id of
        Inl e \<Rightarrow> Inl e
      | Inr pts \<Rightarrow>
          (case optimize_route_by hav pts 0 of
             Inl e \<Rightarrow> Inl e
           | Inr route \<Rightarrow>
               collect_routes hav df lat_col lon_col ids
                 (AList.update (''Cluster_'' @ str_int cluster_id) route routes)))"

definition generate_collection_routes ::
  "kmeans \<Rightarrow> distance \<Rightarrow> store \<Rightarrow> nat \<Rightarrow> string \<Rightarrow> string \<Rightarrow> int \<Rightarrow> error + (store \<times> routes)"
where
  "generate_collection_routes fit_predict hav st df lat_col lon_col n_clusters =
     (case cluster_hotspots fit_predict st df lat_col lon_col n_clusters of
        Inl e \<Rightarrow> Inl e
      | Inr (st', df_clustered, centers) \<Rightarrow>
          (case cluster_labels (st' df_clustered) of
             Inl e \<Rightarrow> Inl e
           | Inr ls \<Rightarrow>
               (case collect_routes hav (st' df_clustered) lat_col lon_col (sort (remdups ls)) [] of
                  Inl e \<Rightarrow> Inl e
                | Inr routes \<Rightarrow> Inr (st', routes))))"

subsection \<open>Example data\<close>

text \<open>
  Modelled from the spec: a seeding for the examples (KMeans is missing), which takes the
  last \<open>k\<close> points; then a frame of one row and a frame of three
  rows on the equator, each the only frame of its store.
\<close>

definition seed_last :: "point list \<Rightarrow> nat \<Rightarrow> point list" where
  "seed_last coords k = take k (rev coords)"

definition frame1 :: dataframe where
  "frame1 = \<lparr>index_len = 1,
             cols = [(''Latitude'', FloatCol [0]), (''Longitude'', FloatCol [0])]\<rparr>"

definition store1 :: store where
  "store1 r = frame1"

definition frame3 :: dataframe where
  "frame3 = \<lparr>index_len = 3,
             cols = [(''Latitude'', FloatCol [0, 0, 0]), (''Longitude'', FloatCol [0, 1, 10])]\<rparr>"

definition store3 :: store where
  "store3 r = frame3"

subsection \<open>Notions used to state and prove the properties\<close>

text \<open>
  \<open>greedy_choice points visited last_stop j\<close>: index \<open>j\<close> is not yet visited, no unvisited
  index is closer to \<open>last_stop\<close>, and every unvisited index at the same distance is
  \<open>j\<close> or larger.
\<close>

definition greedy_choice :: "point list \<Rightarrow> int list \<Rightarrow> point \<Rightarrow> nat \<Rightarrow> bool" where
  "greedy_choice points visited last_stop j =
     (j < length points \<and> int j \<notin> set visited \<and>
      (\<forall>i<length points. int i \<notin> set visited \<longrightarrow>
         (\<exists>dj di.
            haversine (fst last_stop) (snd last_stop) (fst (points ! j)) (snd (points ! j)) = Inr dj
          \<and> haversine (fst last_stop) (snd last_stop) (fst (points ! i)) (snd (points ! i)) = Inr di
          \<and> (dj < di \<or> (dj = di \<and> j \<le> i)))))"

text \<open>
  \<open>hdist\<close> is the distance \<open>haversine\<close> returns; \<open>scan_inv\<close> is the invariant of the
  \<open>for\<close> loop after the indices below \<open>k\<close>.
\<close>

definition hdist :: "point \<Rightarrow> point \<Rightarrow> real" where
  "hdist p q =
     6371 * (2 * arcsin (sqrt (hav_a (radians (fst p)) (radians (snd p)) (radians (fst q)) (radians (snd q)))))"

definition closer :: "point list \<Rightarrow> point \<Rightarrow> nat \<Rightarrow> nat \<Rightarrow> bool" where
  "closer points l j i =
     (hdist l (points ! j) < hdist l (points ! i)
      \<or> (hdist l (points ! j) = hdist l (points ! i) \<and> j \<le> i))"

definition scan_inv :: "point list \<Rightarrow> point \<Rightarrow> int list \<Rightarrow> nat \<Rightarrow> bound \<times> nat option \<Rightarrow> bool" where
  "scan_inv points l visited k st =
     (case snd st of
        None \<Rightarrow> fst st = Infinity \<and> (\<forall>i<k. int i \<in> set visited)
      | Some j \<Rightarrow>
          j < k \<and> int j \<notin> set visited \<and> fst st = Dist (hdist l (points ! j))
          \<and> (\<forall>i<k. int i \<notin> set visited \<longrightarrow> closer points l j i))"

text \<open>
  The same notions for a distance function \<open>hav\<close>.  \<open>no_error hav points\<close>: \<open>hav\<close> raises
  no exception between two points of the list; \<open>dist_by\<close> is the distance it returns.
\<close>

definition greedy_choice_by :: "distance \<Rightarrow> point list \<Rightarrow> int list \<Rightarrow> point \<Rightarrow> nat \<Rightarrow> bool" where
  "greedy_choice_by hav points visited last_stop j =
     (j < length points \<and> int j \<notin> set visited \<and>
      (\<forall>i<length points. int i \<notin> set visited \<longrightarrow>
         (\<exists>dj di.
            hav (fst last_stop) (snd last_stop) (fst (points ! j)) (snd (points ! j)) = Inr dj
          \<and> hav (fst last_stop) (snd last_stop) (fst (points ! i)) (snd (points ! i)) = Inr di
          \<and> (dj < di \<or> (dj = di \<and> j \<le> i)))))"

definition no_error :: "distance \<Rightarrow> point list \<Rightarrow> bool" where
  "no_error hav points =
     (\<forall>p\<in>set points. \<forall>q\<in>set points. \<exists>d. hav (fst p) (snd p) (fst q) (snd q) = Inr d)"

definition dist_by :: "distance \<Rightarrow> point \<Rightarrow> point \<Rightarrow> real" where
  "dist_by hav p q = projr (hav (fst p) (snd p) (fst q) (snd q))"

definition closer_by :: "distance \<Rightarrow> point list \<Rightarrow> point \<Rightarrow> nat \<Rightarrow> nat \<Rightarrow> bool" where
  "closer_by hav points l j i =
     (dist_by hav l (points ! j) < dist_by hav l (points ! i)
      \<or> (dist_by hav l (points ! j) = dist_by hav l (points ! i) \<and> j \<le> i))"

definition scan_inv_by ::
  "distance \<Rightarrow> point list \<Rightarrow> point \<Rightarrow> int list \<Rightarrow> nat \<Rightarrow> bound \<times> nat option \<Rightarrow> bool" where
  "scan_inv_by hav points l visited k st =
     (case snd st of
        None \<Rightarrow> fst st = Infinity \<and> (\<forall>i<k. int i \<in> set visited)
      | Some j \<Rightarrow>
          j < k \<and> int j \<notin> set visited \<and> fst st = Dist (dist_by hav l (points ! j))
          \<and> (\<forall>i<k. int i \<notin> set visited \<longrightarrow> closer_by hav points l j i))"

text \<open>The member list of cluster \<open>c\<close>: the rows with label \<open>c\<close>, in the order of the frame.\<close>

definition members_of :: "int list \<Rightarrow> point list \<Rightarrow> int \<Rightarrow> point list" where
  "members_of ls rows c = map snd (filter (\<lambda>(l, p). l = c) (zip ls rows))"

section \<open>Properties of the distance function\<close>

lemma hav_a_sym: "hav_a lat1 lon1 lat2 lon2 = hav_a lat2 lon2 lat1 lon1"
proof -
  have s: "(sin ((x - y) / 2))\<^sup>2 = (sin ((y - x) / 2))\<^sup>2" for x y :: real
  proof -
    have "(y - x) / 2 = - ((x - y) / 2)" by (simp add: field_simps)
    then show ?thesis by (simp only: sin_minus power2_minus)
  qed
  show ?thesis
    unfolding hav_a_def Let_def
    by (simp add: s [of lat2 lat1] s [of lon2 lon1] mult.commute)
qed

lemma hav_a_same: "hav_a lat lon lat lon = 0"
  by (simp add: hav_a_def)

text \<open>
  C9: the distance from a point to itself is \<open>0\<close>, for every coordinate pair.
\<close>

theorem haversine_identity: "haversine lat lon lat lon = Inr 0"
  by (simp add: haversine_def hav_a_same py_sqrt_def py_asin_def)

text \<open>
  C8: the distance is symmetric, for all coordinate pairs (the results are equal also
  as error values).
\<close>

theorem haversine_symmetric:
  "haversine lat1 lon1 lat2 lon2 = haversine lat2 lon2 lat1 lon1"
  unfolding haversine_def
  by (simp only: hav_a_sym [of "radians lat1" "radians lon1" "radians lat2" "radians lon2"])

lemma hav_a_alt:
  "hav_a lat1 lon1 lat2 lon2 =
     (1 - (cos lat1 * cos lat2 * cos (lon2 - lon1) + sin lat1 * sin lat2)) / 2"
proof -
  have h: "(sin (x / 2))\<^sup>2 = (1 - cos x) / 2" for x :: real
    using cos_double_sin [of "x / 2"] by simp
  show ?thesis
    unfolding hav_a_def Let_def h
    by (simp add: cos_diff field_simps)
qed

lemma dot_bound:
  "\<bar>cos x * cos y * cos z + sin x * sin y\<bar> \<le> (1::real)"
proof -
  have c: "\<bar>cos z\<bar> \<le> 1" by simp
  have "\<bar>cos x * cos y * cos z\<bar> \<le> \<bar>cos x * cos y\<bar>"
    using mult_left_mono [OF c, of "\<bar>cos x * cos y\<bar>"] by (simp add: abs_mult)
  then have 1: "\<bar>cos x * cos y * cos z + sin x * sin y\<bar> \<le> \<bar>cos x\<bar> * \<bar>cos y\<bar> + \<bar>sin x\<bar> * \<bar>sin y\<bar>"
    using abs_triangle_ineq [of "cos x * cos y * cos z" "sin x * sin y"]
    by (simp add: abs_mult)
  have 2: "2 * (\<bar>a\<bar> * \<bar>b\<bar>) \<le> a\<^sup>2 + b\<^sup>2" for a b :: real
    using sum_squares_bound [of "\<bar>a\<bar>" "\<bar>b\<bar>"] by simp
  have 3: "p + q \<le> 1" if "2 * p \<le> a + b" "2 * q \<le> c + d" "a + c = 1" "b + d = 1"
    for p q a b c d :: real
    using that by linarith
  have "\<bar>cos x\<bar> * \<bar>cos y\<bar> + \<bar>sin x\<bar> * \<bar>sin y\<bar> \<le> 1"
    by (rule 3 [OF 2 [of "cos x" "cos y"] 2 [of "sin x" "sin y"]]) simp_all
  with 1 show ?thesis by linarith
qed

lemma hav_a_range: "0 \<le> hav_a lat1 lon1 lat2 lon2 \<and> hav_a lat1 lon1 lat2 lon2 \<le> 1"
  using dot_bound [of lat1 lat2 "lon2 - lon1"] unfolding hav_a_alt by (simp add: abs_le_iff)

lemma haversine_Inr:
  "haversine lat1 lon1 lat2 lon2 =
     Inr (6371 * (2 * arcsin (sqrt (hav_a (radians lat1) (radians lon1) (radians lat2) (radians lon2)))))"
proof -
  let ?a = "hav_a (radians lat1) (radians lon1) (radians lat2) (radians lon2)"
  have a: "0 \<le> ?a" "?a \<le> 1" using hav_a_range by blast+
  have "0 \<le> sqrt ?a" using a(1) by simp
  then have s: "\<not> sqrt ?a < - 1" by linarith
  have t: "\<not> 1 < ?a" "\<not> ?a < 0" using a by simp_all
  show ?thesis unfolding haversine_def py_sqrt_def py_asin_def Let_def by (simp add: s t)
qed

lemma haversine_hdist: "haversine (fst p) (snd p) (fst q) (snd q) = Inr (hdist p q)"
  by (simp add: haversine_Inr hdist_def)

lemma scan_inv_step_visited:
  assumes "scan_inv points l visited k st" "int k \<in> set visited"
  shows "scan_inv points l visited (Suc k) st"
  using assms by (auto simp: scan_inv_def less_Suc_eq split: option.splits)

lemma scan_inv_step_better:
  assumes "scan_inv points l visited k (b, nx)" "int k \<notin> set visited"
    "below (hdist l (points ! k)) b"
  shows "scan_inv points l visited (Suc k) (Dist (hdist l (points ! k)), Some k)"
  using assms
  by (cases nx) (auto simp: scan_inv_def less_Suc_eq closer_def)

lemma scan_inv_step_worse:
  assumes "scan_inv points l visited k (b, nx)" "int k \<notin> set visited"
    "\<not> below (hdist l (points ! k)) b"
  shows "scan_inv points l visited (Suc k) (b, nx)"
  using assms
  by (cases nx) (auto simp: scan_inv_def less_Suc_eq closer_def)

lemma nearest_scan:
  assumes "scan_inv points l visited k st" "drop k points = ps" "k \<le> length points"
  shows "\<exists>st'. nearest l visited (enumerate k ps) st = Inr st'
           \<and> scan_inv points l visited (length points) st'"
  using assms
proof (induction ps arbitrary: k st)
  case Nil
  then have "k = length points" by simp
  with Nil show ?case by simp
next
  case (Cons p ps)
  from Cons.prems(2) have k: "k < length points"
    by (metis drop_all list.distinct(1) not_le)
  from Cons_nth_drop_Suc [OF k] Cons.prems(2)
  have p: "points ! k = p" and d: "drop (Suc k) points = ps" by simp_all
  from k have sk: "Suc k \<le> length points" by simp
  obtain b nx where st: "st = (b, nx)" by (cases st)
  show ?case
  proof (cases "int k \<in> set visited")
    case True
    from Cons.IH [OF scan_inv_step_visited [OF Cons.prems(1) True] d sk] True
    show ?thesis by (simp add: st)
  next
    case False
    show ?thesis
    proof (cases "below (hdist l (points ! k)) b")
      case True
      from Cons.IH [OF scan_inv_step_better [OF Cons.prems(1) [unfolded st] False True] d sk]
      show ?thesis using False True by (simp add: st haversine_hdist p [symmetric])
    next
      case nb: False
      from Cons.IH [OF scan_inv_step_worse [OF Cons.prems(1) [unfolded st] False nb] d sk]
      show ?thesis using False nb by (simp add: st haversine_hdist p [symmetric])
    qed
  qed
qed

lemma unvisited_exists:
  assumes "length visited < n"
  shows "\<exists>i<n. int i \<notin> set visited"
proof (rule ccontr)
  assume "\<not> ?thesis"
  then have "int ` {..<n} \<subseteq> set visited" by auto
  then have "card (int ` {..<n}) \<le> card (set visited)" by (intro card_mono) simp_all
  moreover have "card (int ` {..<n}) = n" by (simp add: card_image)
  moreover have "card (set visited) \<le> length visited" by (rule card_length)
  ultimately show False using assms by linarith
qed

section \<open>Properties of the route builder\<close>

lemma scan_inv_greedy:
  assumes "scan_inv points l visited (length points) (b, Some j)"
  shows "greedy_choice points visited l j"
  using assms
  by (auto simp: scan_inv_def greedy_choice_def haversine_hdist closer_def)

lemma nearest_result:
  assumes "length visited < length points"
  shows "\<exists>b j. nearest l visited (enumerate 0 points) (Infinity, None) = Inr (b, Some j)
           \<and> greedy_choice points visited l j"
proof -
  have "scan_inv points l visited 0 (Infinity, None)" by (simp add: scan_inv_def)
  from nearest_scan [OF this, of points]
  obtain b nx where r: "nearest l visited (enumerate 0 points) (Infinity, None) = Inr (b, nx)"
    and inv: "scan_inv points l visited (length points) (b, nx)"
    by auto
  from unvisited_exists [OF assms] inv obtain j where "nx = Some j"
    by (cases nx) (auto simp: scan_inv_def)
  with r inv scan_inv_greedy show ?thesis by blast
qed

lemma py_index_last: "route \<noteq> [] \<Longrightarrow> py_index route (- 1) = Inr (last route)"
  by (cases route rule: rev_cases) (auto simp: py_index_def nth_append)

lemma py_index_nat: "j < length xs \<Longrightarrow> py_index xs (int j) = Inr (xs ! j)"
  by (simp add: py_index_def)

lemma route_loop_run:
  assumes "route \<noteq> []" "length route = length visited" "length visited \<le> length points"
  shows "\<exists>vF rF. route_loop points visited route = Inr (vF, rF)
           \<and> length vF = length points \<and> length rF = length points
           \<and> take (length visited) vF = visited \<and> take (length visited) rF = route
           \<and> (\<forall>k. length visited \<le> k \<and> k < length points \<longrightarrow>
                 (\<exists>j. vF ! k = int j \<and> rF ! k = points ! j
                    \<and> greedy_choice points (take k vF) (rF ! (k - 1)) j))"
  using assms
proof (induction points visited route rule: route_loop.induct)
  case (1 points visited route)
  let ?m = "length visited"
  show ?case
  proof (cases "?m < length points")
    case False
    with "1.prems" have "?m = length points" by simp
    with "1.prems" False show ?thesis
      by (subst route_loop.simps) auto
  next
    case True
    from py_index_last [OF "1.prems"(1)] have l: "py_index route (- 1) = Inr (last route)" .
    from nearest_result [OF True, of "last route"] obtain b j where
      n: "nearest (last route) visited (enumerate 0 points) (Infinity, None) = Inr (b, Some j)"
      and g: "greedy_choice points visited (last route) j" by blast
    from g have j: "j < length points" by (simp add: greedy_choice_def)
    have p: "py_index points (int j) = Inr (points ! j)" by (rule py_index_nat [OF j])
    have "\<exists>vF rF. route_loop points (visited @ [int j]) (route @ [points ! j]) = Inr (vF, rF)
           \<and> length vF = length points \<and> length rF = length points
           \<and> take (length (visited @ [int j])) vF = visited @ [int j]
           \<and> take (length (visited @ [int j])) rF = route @ [points ! j]
           \<and> (\<forall>k. length (visited @ [int j]) \<le> k \<and> k < length points \<longrightarrow>
                 (\<exists>j. vF ! k = int j \<and> rF ! k = points ! j
                    \<and> greedy_choice points (take k vF) (rF ! (k - 1)) j))"
      using "1.prems" True
      by (intro "1.IH" [OF True l n refl refl p]) simp_all
    then obtain vF rF where
      run: "route_loop points (visited @ [int j]) (route @ [points ! j]) = Inr (vF, rF)"
      and len: "length vF = length points" "length rF = length points"
      and tv: "take (Suc ?m) vF = visited @ [int j]"
      and tr: "take (Suc ?m) rF = route @ [points ! j]"
      and rest: "\<forall>k. Suc ?m \<le> k \<and> k < length points \<longrightarrow>
                 (\<exists>j. vF ! k = int j \<and> rF ! k = points ! j
                    \<and> greedy_choice points (take k vF) (rF ! (k - 1)) j)"
      by auto
    have eq: "route_loop points visited route = Inr (vF, rF)"
      by (subst route_loop.simps) (simp add: True l n p run)
    have "take ?m (take (Suc ?m) vF) = take ?m (visited @ [int j])" by (simp only: tv)
    then have v1: "take ?m vF = visited" by simp
    have "take ?m (take (Suc ?m) rF) = take ?m (route @ [points ! j])" by (simp only: tr)
    then have r1: "take ?m rF = route" using "1.prems"(2) by simp
    have "take (Suc ?m) vF ! ?m = (visited @ [int j]) ! ?m" by (simp only: tv)
    then have v2: "vF ! ?m = int j" by simp
    have "take (Suc ?m) rF ! ?m = (route @ [points ! j]) ! ?m" by (simp only: tr)
    then have r2: "rF ! ?m = points ! j" using "1.prems"(2) by (simp add: nth_append)
    have m0: "0 < ?m" using "1.prems" by (cases route) auto
    have "take ?m rF ! (?m - 1) = route ! (?m - 1)" by (simp only: r1)
    then have "rF ! (?m - 1) = route ! (?m - 1)" using m0 by simp
    also have "\<dots> = last route" using "1.prems" by (simp add: last_conv_nth)
    finally have r3: "rF ! (?m - 1) = last route" .
    have step: "\<exists>j. vF ! k = int j \<and> rF ! k = points ! j
                    \<and> greedy_choice points (take k vF) (rF ! (k - 1)) j"
      if "?m \<le> k" "k < length points" for k
    proof (cases "k = ?m")
      case True
      with v1 v2 r2 r3 g show ?thesis by auto
    next
      case False
      with that rest show ?thesis by simp
    qed
    from eq len v1 r1 step show ?thesis by blast
  qed
qed

lemma distinct_fresh:
  assumes "\<forall>k<length xs. xs ! k \<notin> set (take k xs)"
  shows "distinct xs"
proof -
  have ne: "xs ! i \<noteq> xs ! j" if "i < j" "j < length xs" for i j
  proof -
    from that have "i < length (take j xs)" by simp
    then have "take j xs ! i \<in> set (take j xs)" by (rule nth_mem)
    with that have "xs ! i \<in> set (take j xs)" by simp
    moreover from assms that have "xs ! j \<notin> set (take j xs)" by simp
    ultimately show ?thesis by auto
  qed
  show ?thesis
    unfolding distinct_conv_nth
  proof (intro allI impI)
    fix i j
    assume "i < length xs" "j < length xs" "i \<noteq> j"
    then consider "i < j" | "j < i" by linarith
    then show "xs ! i \<noteq> xs ! j"
    proof cases
      case 1
      then show ?thesis using \<open>j < length xs\<close> by (rule ne)
    next
      case 2
      then have "xs ! j \<noteq> xs ! i" using \<open>i < length xs\<close> by (rule ne)
      then show ?thesis by simp
    qed
  qed
qed

lemma perm_of_indices:
  assumes "length idxs = length xs" "distinct idxs" "set idxs \<subseteq> {..<length xs}"
  shows "mset (map ((!) xs) idxs) = mset xs"
proof -
  have "card (set idxs) = card {..<length xs}"
    using assms by (simp add: distinct_card)
  with assms(3) have "set idxs = {..<length xs}"
    by (intro card_subset_eq) simp_all
  then have "set idxs = set [0..<length xs]" by (simp add: atLeast0LessThan)
  moreover have "distinct [0..<length xs]" by simp
  ultimately have "mset idxs = mset [0..<length xs]"
    using set_eq_iff_mset_eq_distinct [OF assms(2), of "[0..<length xs]"] by blast
  then have "image_mset ((!) xs) (mset idxs) = image_mset ((!) xs) (mset [0..<length xs])"
    by (rule arg_cong)
  then have "mset (map ((!) xs) idxs) = mset (map ((!) xs) [0..<length xs])"
    by (simp only: mset_map)
  then show ?thesis by (simp only: map_nth)
qed

text \<open>
  C7: on an empty list of points \<open>optimize_route\<close> returns the empty route and raises
  no error, whatever \<open>start_index\<close> is.
\<close>

theorem optimize_route_empty: "optimize_route [] start_index = Inr []"
  by (simp add: optimize_route_def)

lemma hdist_same: "hdist p p = 0"
  by (simp add: hdist_def hav_a_same)

lemma hdist_half_turn: "hdist (0, 0) (0, 180) = 6371 * pi"
  by (simp add: hdist_def hav_a_def radians_def)

lemma optimize_route_run:
  assumes "points \<noteq> []" "0 \<le> start_index" "start_index < int (length points)"
  shows "\<exists>vF rF. route_loop points [start_index] [points ! nat start_index] = Inr (vF, rF)
           \<and> optimize_route points start_index = Inr rF
           \<and> length vF = length points \<and> length rF = length points
           \<and> vF ! 0 = start_index \<and> rF ! 0 = points ! nat start_index
           \<and> (\<forall>k. 0 < k \<and> k < length points \<longrightarrow>
                 (\<exists>j. vF ! k = int j \<and> rF ! k = points ! j
                    \<and> greedy_choice points (take k vF) (rF ! (k - 1)) j))"
proof -
  have le: "length [start_index] \<le> length points" using assms(1) by (cases points) simp_all
  from route_loop_run [OF _ _ le, of "[points ! nat start_index]"]
  obtain vF rF where
    run: "route_loop points [start_index] [points ! nat start_index] = Inr (vF, rF)"
    and len: "length vF = length points" "length rF = length points"
    and tv: "take 1 vF = [start_index]" and tr: "take 1 rF = [points ! nat start_index]"
    and rest: "\<forall>k. 1 \<le> k \<and> k < length points \<longrightarrow>
                 (\<exists>j. vF ! k = int j \<and> rF ! k = points ! j
                    \<and> greedy_choice points (take k vF) (rF ! (k - 1)) j)"
    by auto
  have "take 1 vF ! 0 = [start_index] ! 0" by (simp only: tv)
  then have v0: "vF ! 0 = start_index" by simp
  have "take 1 rF ! 0 = [points ! nat start_index] ! 0" by (simp only: tr)
  then have r0: "rF ! 0 = points ! nat start_index" by simp
  have p: "py_index points start_index = Inr (points ! nat start_index)"
    using assms by (simp add: py_index_def)
  have opt: "optimize_route points start_index = Inr rF"
    using assms(1) by (simp add: optimize_route_def p run)
  have rest': "\<forall>k. 0 < k \<and> k < length points \<longrightarrow>
                 (\<exists>j. vF ! k = int j \<and> rF ! k = points ! j
                    \<and> greedy_choice points (take k vF) (rF ! (k - 1)) j)"
    using rest by (simp add: Suc_le_eq)
  from run opt len v0 r0 rest' show ?thesis by blast
qed

text \<open>
  C1: for a non-empty list of points and a start index \<open>0 \<le> i < n\<close>, \<open>optimize_route\<close>
  returns a route of the length of the input, with the same multiset of points (a
  permutation of the input), whose first element is the point at the start index.
\<close>

theorem optimize_route_permutation:
  assumes "points \<noteq> []" "0 \<le> start_index" "start_index < int (length points)"
  shows "\<exists>route. optimize_route points start_index = Inr route
           \<and> length route = length points
           \<and> mset route = mset points
           \<and> hd route = points ! nat start_index"
proof -
  let ?n = "length points"
  from optimize_route_run [OF assms] obtain vF rF where
    opt: "optimize_route points start_index = Inr rF"
    and len: "length vF = ?n" "length rF = ?n"
    and v0: "vF ! 0 = start_index" and r0: "rF ! 0 = points ! nat start_index"
    and rest: "\<forall>k. 0 < k \<and> k < ?n \<longrightarrow>
                 (\<exists>j. vF ! k = int j \<and> rF ! k = points ! j
                    \<and> greedy_choice points (take k vF) (rF ! (k - 1)) j)"
    by blast
  have step: "0 \<le> vF ! k \<and> vF ! k < int ?n \<and> rF ! k = points ! nat (vF ! k)
                \<and> vF ! k \<notin> set (take k vF)" if "k < ?n" for k
  proof (cases "k = 0")
    case True
    with assms v0 r0 show ?thesis by simp
  next
    case False
    with that rest obtain j where "vF ! k = int j" "rF ! k = points ! j"
      "greedy_choice points (take k vF) (rF ! (k - 1)) j" by auto
    then show ?thesis by (simp add: greedy_choice_def)
  qed
  have dv: "distinct vF"
    by (rule distinct_fresh) (simp add: len step)
  have nonneg: "\<forall>x \<in> set vF. 0 \<le> x \<and> x < int ?n"
    using step len by (auto simp: in_set_conv_nth)
  have "inj_on nat (set vF)"
    using nonneg by (auto intro!: inj_onI simp: eq_nat_nat_iff)
  with dv have d: "distinct (map nat vF)" by (simp add: distinct_map)
  have sub: "set (map nat vF) \<subseteq> {..<?n}"
    using nonneg by auto
  have r: "rF = map ((!) points) (map nat vF)"
    by (rule nth_equalityI) (simp_all add: len step)
  have "mset (map ((!) points) (map nat vF)) = mset points"
    by (rule perm_of_indices [OF _ d sub]) (simp add: len)
  with r have m: "mset rF = mset points" by simp
  have "rF \<noteq> []" using len assms(1) by auto
  then have "hd rF = rF ! 0" by (simp add: hd_conv_nth)
  with r0 have h: "hd rF = points ! nat start_index" by simp
  from opt len m h show ?thesis by blast
qed

theorem optimize_route_permutation_witness:
  "[(0, 0), (0, 180) :: point] \<noteq> [] \<and> (0 :: int) \<le> 1
   \<and> 1 < int (length [(0, 0), (0, 180) :: point])
   \<and> (\<exists>route. optimize_route [(0, 0), (0, 180)] 1 = Inr route
         \<and> length route = length [(0, 0), (0, 180) :: point]
         \<and> mset route = mset [(0, 0), (0, 180)]
         \<and> hd route = [(0, 0), (0, 180)] ! nat 1)"
  using optimize_route_permutation [of "[(0, 0), (0, 180)]" 1] by simp

section \<open>The greedy rule\<close>

text \<open>
  The functions with the distance \<open>haversine\<close> on the reals are an instance of the ones
  with the parameter \<open>hav\<close>.
\<close>

lemma nearest_by_haversine: "nearest_by haversine l visited ips st = nearest l visited ips st"
  by (induction l visited ips st rule: nearest.induct) (simp_all split: sum.splits)

lemma route_loop_by_haversine:
  "route_loop_by haversine points visited route = route_loop points visited route"
proof (induction points visited route rule: route_loop.induct)
  case (1 points visited route)
  show ?case
    apply (subst route_loop_by.simps)
    apply (subst route_loop.simps)
    apply (simp add: nearest_by_haversine split: sum.splits option.splits prod.splits)
    using "1.IH" by (auto simp: nearest_by_haversine)
qed

lemma optimize_route_by_haversine:
  "optimize_route_by haversine points start_index = optimize_route points start_index"
  by (simp add: optimize_route_by_def optimize_route_def route_loop_by_haversine split: sum.splits)

lemma dist_by_Inr:
  assumes "no_error hav points" "l \<in> set points" "i < length points"
  shows "hav (fst l) (snd l) (fst (points ! i)) (snd (points ! i)) = Inr (dist_by hav l (points ! i))"
proof -
  from assms(3) have "points ! i \<in> set points" by simp
  with assms(1,2) obtain d where
    "hav (fst l) (snd l) (fst (points ! i)) (snd (points ! i)) = Inr d"
    unfolding no_error_def by blast
  then show ?thesis by (simp add: dist_by_def)
qed

lemma scan_inv_by_visited:
  assumes "scan_inv_by hav points l visited k st" "int k \<in> set visited"
  shows "scan_inv_by hav points l visited (Suc k) st"
  using assms by (auto simp: scan_inv_by_def less_Suc_eq split: option.splits)

lemma scan_inv_by_better:
  assumes "scan_inv_by hav points l visited k (b, nx)" "int k \<notin> set visited"
    "below (dist_by hav l (points ! k)) b"
  shows "scan_inv_by hav points l visited (Suc k) (Dist (dist_by hav l (points ! k)), Some k)"
  using assms
  by (cases nx) (auto simp: scan_inv_by_def less_Suc_eq closer_by_def)

lemma scan_inv_by_worse:
  assumes "scan_inv_by hav points l visited k (b, nx)" "int k \<notin> set visited"
    "\<not> below (dist_by hav l (points ! k)) b"
  shows "scan_inv_by hav points l visited (Suc k) (b, nx)"
  using assms
  by (cases nx) (auto simp: scan_inv_by_def less_Suc_eq closer_by_def)

lemma nearest_by_scan:
  assumes tot: "no_error hav points" "l \<in> set points"
    and "scan_inv_by hav points l visited k st" "drop k points = ps" "k \<le> length points"
  shows "\<exists>st'. nearest_by hav l visited (enumerate k ps) st = Inr st'
           \<and> scan_inv_by hav points l visited (length points) st'"
  using assms(3-5)
proof (induction ps arbitrary: k st)
  case Nil
  then have "k = length points" by simp
  with Nil show ?case by simp
next
  case (Cons p ps)
  have k: "k < length points"
  proof (rule ccontr)
    assume "\<not> k < length points"
    then have "drop k points = []" by simp
    with Cons.prems(2) show False by simp
  qed
  from Cons_nth_drop_Suc [OF k] Cons.prems(2)
  have p: "points ! k = p" and d: "drop (Suc k) points = ps" by simp_all
  from k have sk: "Suc k \<le> length points" by simp
  have h: "hav (fst l) (snd l) (fst p) (snd p) = Inr (dist_by hav l (points ! k))"
    using dist_by_Inr [OF tot k] by (simp add: p)
  obtain b nx where st: "st = (b, nx)" by (cases st)
  show ?case
  proof (cases "int k \<in> set visited")
    case True
    from Cons.IH [OF scan_inv_by_visited [OF Cons.prems(1) True] d sk] True
    show ?thesis by (simp add: st)
  next
    case False
    show ?thesis
    proof (cases "below (dist_by hav l (points ! k)) b")
      case True
      from Cons.IH [OF scan_inv_by_better [OF Cons.prems(1) [unfolded st] False True] d sk]
      show ?thesis using False True by (simp add: st h)
    next
      case nb: False
      from Cons.IH [OF scan_inv_by_worse [OF Cons.prems(1) [unfolded st] False nb] d sk]
      show ?thesis using False nb by (simp add: st h)
    qed
  qed
qed

lemma scan_inv_by_greedy:
  assumes "no_error hav points" "l \<in> set points"
    "scan_inv_by hav points l visited (length points) (b, Some j)"
  shows "greedy_choice_by hav points visited l j"
  using assms(3) dist_by_Inr [OF assms(1,2)]
  by (auto simp: scan_inv_by_def greedy_choice_by_def closer_by_def)

lemma nearest_by_result:
  assumes "no_error hav points" "l \<in> set points" "length visited < length points"
  shows "\<exists>b j. nearest_by hav l visited (enumerate 0 points) (Infinity, None) = Inr (b, Some j)
           \<and> greedy_choice_by hav points visited l j"
proof -
  have "scan_inv_by hav points l visited 0 (Infinity, None)" by (simp add: scan_inv_by_def)
  from nearest_by_scan [OF assms(1,2) this, of points]
  obtain b nx where
    r: "nearest_by hav l visited (enumerate 0 points) (Infinity, None) = Inr (b, nx)"
    and inv: "scan_inv_by hav points l visited (length points) (b, nx)"
    by auto
  from unvisited_exists [OF assms(3)] inv obtain j where nx: "nx = Some j"
    by (cases nx) (auto simp: scan_inv_by_def)
  from scan_inv_by_greedy [OF assms(1,2) inv [unfolded nx]] r nx show ?thesis by blast
qed

lemma route_loop_by_run:
  assumes "no_error hav points" "set route \<subseteq> set points"
    "route \<noteq> []" "length route = length visited" "length visited \<le> length points"
  shows "\<exists>vF rF. route_loop_by hav points visited route = Inr (vF, rF)
           \<and> length vF = length points \<and> length rF = length points
           \<and> take (length visited) vF = visited \<and> take (length visited) rF = route
           \<and> (\<forall>k. length visited \<le> k \<and> k < length points \<longrightarrow>
                 (\<exists>j. vF ! k = int j \<and> rF ! k = points ! j
                    \<and> greedy_choice_by hav points (take k vF) (rF ! (k - 1)) j))"
  using assms
proof (induction hav points visited route rule: route_loop_by.induct)
  case (1 hav points visited route)
  let ?m = "length visited"
  show ?case
  proof (cases "?m < length points")
    case False
    with "1.prems" have "?m = length points" by simp
    with "1.prems" False show ?thesis
      by (subst route_loop_by.simps) auto
  next
    case True
    from py_index_last [OF "1.prems"(3)] have l: "py_index route (- 1) = Inr (last route)" .
    have lin: "last route \<in> set points" using "1.prems"(2,3) last_in_set by blast
    from nearest_by_result [OF "1.prems"(1) lin True] obtain b j where
      n: "nearest_by hav (last route) visited (enumerate 0 points) (Infinity, None) = Inr (b, Some j)"
      and g: "greedy_choice_by hav points visited (last route) j" by blast
    from g have j: "j < length points" by (simp add: greedy_choice_by_def)
    have p: "py_index points (int j) = Inr (points ! j)" by (rule py_index_nat [OF j])
    have sub: "set (route @ [points ! j]) \<subseteq> set points" using "1.prems"(2) j by simp
    have "\<exists>vF rF. route_loop_by hav points (visited @ [int j]) (route @ [points ! j]) = Inr (vF, rF)
           \<and> length vF = length points \<and> length rF = length points
           \<and> take (length (visited @ [int j])) vF = visited @ [int j]
           \<and> take (length (visited @ [int j])) rF = route @ [points ! j]
           \<and> (\<forall>k. length (visited @ [int j]) \<le> k \<and> k < length points \<longrightarrow>
                 (\<exists>j. vF ! k = int j \<and> rF ! k = points ! j
                    \<and> greedy_choice_by hav points (take k vF) (rF ! (k - 1)) j))"
      using "1.prems" True
      by (intro "1.IH" [OF True l n refl refl p _ sub]) simp_all
    then obtain vF rF where
      run: "route_loop_by hav points (visited @ [int j]) (route @ [points ! j]) = Inr (vF, rF)"
      and len: "length vF = length points" "length rF = length points"
      and tv: "take (Suc ?m) vF = visited @ [int j]"
      and tr: "take (Suc ?m) rF = route @ [points ! j]"
      and rest: "\<forall>k. Suc ?m \<le> k \<and> k < length points \<longrightarrow>
                 (\<exists>j. vF ! k = int j \<and> rF ! k = points ! j
                    \<and> greedy_choice_by hav points (take k vF) (rF ! (k - 1)) j)"
      by auto
    have eq: "route_loop_by hav points visited route = Inr (vF, rF)"
      by (subst route_loop_by.simps) (simp add: True l n p run)
    have "take ?m (take (Suc ?m) vF) = take ?m (visited @ [int j])" by (simp only: tv)
    then have v1: "take ?m vF = visited" by simp
    have "take ?m (take (Suc ?m) rF) = take ?m (route @ [points ! j])" by (simp only: tr)
    then have r1: "take ?m rF = route" using "1.prems"(4) by simp
    have "take (Suc ?m) vF ! ?m = (visited @ [int j]) ! ?m" by (simp only: tv)
    then have v2: "vF ! ?m = int j" by simp
    have "take (Suc ?m) rF ! ?m = (route @ [points ! j]) ! ?m" by (simp only: tr)
    then have r2: "rF ! ?m = points ! j" using "1.prems"(4) by (simp add: nth_append)
    have m0: "0 < ?m" using "1.prems" by (cases route) auto
    have "take ?m rF ! (?m - 1) = route ! (?m - 1)" by (simp only: r1)
    then have "rF ! (?m - 1) = route ! (?m - 1)" using m0 by simp
    also have "\<dots> = last route" using "1.prems" by (simp add: last_conv_nth)
    finally have r3: "rF ! (?m - 1) = last route" .
    have step: "\<exists>j. vF ! k = int j \<and> rF ! k = points ! j
                    \<and> greedy_choice_by hav points (take k vF) (rF ! (k - 1)) j"
      if "?m \<le> k" "k < length points" for k
    proof (cases "k = ?m")
      case True
      with v1 v2 r2 r3 g show ?thesis by auto
    next
      case False
      with that rest show ?thesis by simp
    qed
    from eq len v1 r1 step show ?thesis by blast
  qed
qed

lemma equator:
  assumes "\<bar>y - x\<bar> \<le> 180"
  shows "haversine 0 x 0 y = Inr (6371 * (2 * (\<bar>y - x\<bar> * pi / 360)))"
proof -
  let ?t = "(y - x) * pi / 360"
  have a: "hav_a (radians 0) (radians x) (radians 0) (radians y) = (sin ?t)\<^sup>2"
    by (simp add: hav_a_def radians_def field_simps)
  have b: "\<bar>?t\<bar> \<le> pi / 2"
  proof -
    have "\<bar>?t\<bar> = \<bar>y - x\<bar> * pi / 360" by (simp add: abs_mult)
    also have "\<dots> \<le> 180 * pi / 360" using assms by (simp add: mult_right_mono)
    finally show ?thesis by simp
  qed
  have "0 \<le> sin \<bar>?t\<bar>" using b by (intro sin_ge_zero) (auto intro: order_trans)
  moreover have "\<bar>sin ?t\<bar> = \<bar>sin \<bar>?t\<bar>\<bar>" by (cases "0 \<le> ?t") (simp_all add: abs_if)
  ultimately have s: "\<bar>sin ?t\<bar> = sin \<bar>?t\<bar>" by simp
  have "arcsin (sqrt ((sin ?t)\<^sup>2)) = arcsin (sin \<bar>?t\<bar>)" by (simp add: s)
  also have "\<dots> = \<bar>?t\<bar>" using b by (intro arcsin_sin) linarith+
  also have "\<dots> = \<bar>y - x\<bar> * pi / 360" by (simp add: abs_mult)
  finally have "arcsin (sqrt ((sin ?t)\<^sup>2)) = \<bar>y - x\<bar> * pi / 360" .
  then show ?thesis by (simp only: haversine_Inr a)
qed

lemma no_error_haversine: "no_error haversine points"
  by (simp add: no_error_def haversine_Inr)

lemma tie_run:
  "route_loop_by haversine [(0, 0), (0, 2), (0, 1), (0, - 1)] [0] [(0, 0)] =
     Inr ([0, 2, 1, 3], [(0, 0), (0, 1), (0, 2), (0, - 1)])"
proof -
  have h: "haversine 0 0 0 2 = Inr (6371 * (2 * (2 * pi / 360)))"
    "haversine 0 0 0 1 = Inr (6371 * (2 * (1 * pi / 360)))"
    "haversine 0 0 0 (- 1) = Inr (6371 * (2 * (1 * pi / 360)))"
    "haversine 0 1 0 2 = Inr (6371 * (2 * (1 * pi / 360)))"
    "haversine 0 1 0 (- 1) = Inr (6371 * (2 * (2 * pi / 360)))"
    "haversine 0 2 0 (- 1) = Inr (6371 * (2 * (3 * pi / 360)))"
    using equator [of 2 0] equator [of 1 0] equator [of "- 1" 0] equator [of 2 1]
      equator [of "- 1" 1] equator [of "- 1" 2]
    by simp_all
  have l4: "route_loop_by haversine [(0, 0), (0, 2), (0, 1), (0, - 1)] [0, 2, 1, 3]
              [(0, 0), (0, 1), (0, 2), (0, - 1)] =
            Inr ([0, 2, 1, 3], [(0, 0), (0, 1), (0, 2), (0, - 1)])"
    by (subst route_loop_by.simps) simp
  have l3: "route_loop_by haversine [(0, 0), (0, 2), (0, 1), (0, - 1)] [0, 2, 1]
              [(0, 0), (0, 1), (0, 2)] =
            Inr ([0, 2, 1, 3], [(0, 0), (0, 1), (0, 2), (0, - 1)])"
    by (subst route_loop_by.simps) (simp add: py_index_def h l4)
  have l2: "route_loop_by haversine [(0, 0), (0, 2), (0, 1), (0, - 1)] [0, 2]
              [(0, 0), (0, 1)] =
            Inr ([0, 2, 1, 3], [(0, 0), (0, 1), (0, 2), (0, - 1)])"
    by (subst route_loop_by.simps) (simp add: py_index_def h l3)
  show ?thesis
    by (subst route_loop_by.simps) (simp add: py_index_def h l2)
qed

text \<open>
  C2: for a non-empty list of points and a valid start index, every stop after the first
  is a greedy choice, for the distances \<open>hav\<close> the program computes (whatever their
  rounding), provided \<open>hav\<close> raises no error on the points: at step \<open>k\<close> the index \<open>j\<close>
  appended to \<open>visited\<close> is unvisited, no unvisited point has a smaller distance from the
  stop added last, and among the unvisited points at that same distance \<open>j\<close> is the
  lowest index.
\<close>

theorem optimize_route_greedy:
  assumes "points \<noteq> []" "0 \<le> start_index" "start_index < int (length points)"
    "no_error hav points"
  shows "\<exists>visited route.
           route_loop_by hav points [start_index] [points ! nat start_index] = Inr (visited, route)
           \<and> optimize_route_by hav points start_index = Inr route
           \<and> length visited = length points \<and> length route = length points
           \<and> visited ! 0 = start_index \<and> route ! 0 = points ! nat start_index
           \<and> (\<forall>k. 0 < k \<and> k < length points \<longrightarrow>
                 (\<exists>j. visited ! k = int j \<and> route ! k = points ! j
                    \<and> greedy_choice_by hav points (take k visited) (route ! (k - 1)) j))"
proof -
  have le: "length [start_index] \<le> length points" using assms(1) by (cases points) simp_all
  have sub: "set [points ! nat start_index] \<subseteq> set points" using assms(2,3) by simp
  from route_loop_by_run [OF assms(4) sub _ _ le]
  obtain vF rF where
    run: "route_loop_by hav points [start_index] [points ! nat start_index] = Inr (vF, rF)"
    and len: "length vF = length points" "length rF = length points"
    and tv: "take 1 vF = [start_index]" and tr: "take 1 rF = [points ! nat start_index]"
    and rest: "\<forall>k. 1 \<le> k \<and> k < length points \<longrightarrow>
                 (\<exists>j. vF ! k = int j \<and> rF ! k = points ! j
                    \<and> greedy_choice_by hav points (take k vF) (rF ! (k - 1)) j)"
    by auto
  have "take 1 vF ! 0 = [start_index] ! 0" by (simp only: tv)
  then have v0: "vF ! 0 = start_index" by simp
  have "take 1 rF ! 0 = [points ! nat start_index] ! 0" by (simp only: tr)
  then have r0: "rF ! 0 = points ! nat start_index" by simp
  have p: "py_index points start_index = Inr (points ! nat start_index)"
    using assms by (simp add: py_index_def)
  have opt: "optimize_route_by hav points start_index = Inr rF"
    using assms(1) by (simp add: optimize_route_by_def p run)
  have rest': "\<forall>k. 0 < k \<and> k < length points \<longrightarrow>
                 (\<exists>j. vF ! k = int j \<and> rF ! k = points ! j
                    \<and> greedy_choice_by hav points (take k vF) (rF ! (k - 1)) j)"
    using rest by (simp add: Suc_le_eq)
  from run opt len v0 r0 rest' show ?thesis by blast
qed

text \<open>
  On \<open>[(0,0), (0,2), (0,1), (0,-1)]\<close> from index \<open>0\<close>: the first candidate, index \<open>1\<close>, is
  not the nearest, and the indices \<open>2\<close> and \<open>3\<close> are at the same distance; index \<open>2\<close> is
  chosen.
\<close>

theorem optimize_route_greedy_witness:
  "[(0, 0), (0, 2), (0, 1), (0, - 1) :: point] \<noteq> [] \<and> (0 :: int) \<le> 0
   \<and> 0 < int (length [(0, 0), (0, 2), (0, 1), (0, - 1) :: point])
   \<and> no_error haversine [(0, 0), (0, 2), (0, 1), (0, - 1)]
   \<and> optimize_route_by haversine [(0, 0), (0, 2), (0, 1), (0, - 1)] 0 =
       Inr [(0, 0), (0, 1), (0, 2), (0, - 1)]
   \<and> greedy_choice_by haversine [(0, 0), (0, 2), (0, 1), (0, - 1)] [0] (0, 0) 2
   \<and> greedy_choice_by haversine [(0, 0), (0, 2), (0, 1), (0, - 1)] [0, 2] (0, 1) 1
   \<and> greedy_choice_by haversine [(0, 0), (0, 2), (0, 1), (0, - 1)] [0, 2, 1] (0, 2) 3
   \<and> haversine 0 0 0 1 = haversine 0 0 0 (- 1)
   \<and> haversine 0 0 0 1 \<noteq> haversine 0 0 0 2"
proof -
  let ?P = "[(0, 0), (0, 2), (0, 1), (0, - 1) :: point]"
  have h: "?P \<noteq> []" "(0 :: int) \<le> 0" "0 < int (length ?P)" by simp_all
  have ne: "no_error haversine ?P" by (rule no_error_haversine)
  from optimize_route_greedy [OF h ne] obtain visited route where
    run: "route_loop_by haversine ?P [0] [?P ! nat 0] = Inr (visited, route)"
    and opt: "optimize_route_by haversine ?P 0 = Inr route"
    and steps: "\<forall>k. 0 < k \<and> k < length ?P \<longrightarrow>
                 (\<exists>j. visited ! k = int j \<and> route ! k = ?P ! j
                    \<and> greedy_choice_by haversine ?P (take k visited) (route ! (k - 1)) j)"
    by blast
  from run tie_run have v: "visited = [0, 2, 1, 3]"
    and r: "route = [(0, 0), (0, 1), (0, 2), (0, - 1)]" by simp_all
  from steps [rule_format, of 1] have g1: "greedy_choice_by haversine ?P [0] (0, 0) 2"
    by (auto simp: v r)
  from steps [rule_format, of 2] have g2: "greedy_choice_by haversine ?P [0, 2] (0, 1) 1"
    by (auto simp: v r)
  from steps [rule_format, of 3] have g3: "greedy_choice_by haversine ?P [0, 2, 1] (0, 2) 3"
    by (auto simp: v r)
  have t: "haversine 0 0 0 1 = haversine 0 0 0 (- 1)"
    using equator [of 1 0] equator [of "- 1" 0] by simp
  have d: "haversine 0 0 0 1 \<noteq> haversine 0 0 0 2"
    using equator [of 1 0] equator [of 2 0] by simp
  from h ne opt [unfolded r] g1 g2 g3 t d show ?thesis by blast
qed

text \<open>
  C5, as amended: on a non-empty list of \<open>n\<close> points \<open>optimize_route\<close> raises IndexError when
  \<open>start_index \<ge> n\<close> or \<open>start_index < -n\<close>, it returns a route for every start index in
  \<open>[0, n-1]\<close>, and a call that leaves \<open>start_index\<close> out is a call with \<open>0\<close>.
\<close>

theorem optimize_route_start_index:
  assumes "points \<noteq> []"
  shows "(int (length points) \<le> i \<or> i < - int (length points)
            \<longrightarrow> optimize_route points i = Inl IndexError)
         \<and> (0 \<le> j \<and> j < int (length points) \<longrightarrow> (\<exists>route. optimize_route points j = Inr route))
         \<and> optimize_route_call points None = optimize_route points 0"
proof (intro conjI impI)
  assume "int (length points) \<le> i \<or> i < - int (length points)"
  with assms show "optimize_route points i = Inl IndexError"
    by (auto simp: optimize_route_def py_index_def)
next
  assume "0 \<le> j \<and> j < int (length points)"
  with optimize_route_run [OF assms, of j] show "\<exists>route. optimize_route points j = Inr route"
    by blast
next
  show "optimize_route_call points None = optimize_route points 0"
    by (simp add: optimize_route_call_def)
qed

theorem optimize_route_start_index_witness:
  "[(0, 0) :: point] \<noteq> [] \<and> optimize_route [(0, 0)] 1 = Inl IndexError
   \<and> (\<exists>route. optimize_route [(0, 0)] 0 = Inr route)
   \<and> optimize_route_call [(0, 0)] None = optimize_route [(0, 0)] 0"
  using optimize_route_start_index [of "[(0, 0)]" 1 0] by simp

lemma negative_start_run:
  "optimize_route [(0, 180), (0, 0)] (- 1) = Inr [(0, 0), (0, 0)]"
proof -
  have h1: "haversine 0 0 0 180 = Inr (6371 * pi)"
    using haversine_hdist [of "(0, 0)" "(0, 180)"] by (simp add: hdist_half_turn)
  have h2: "haversine 0 0 0 0 = Inr 0"
    using haversine_hdist [of "(0, 0)" "(0, 0)"] by (simp add: hdist_same)
  have l: "route_loop [(0, 180), (0, 0)] [- 1, 1] [(0, 0), (0, 0)] = Inr ([- 1, 1], [(0, 0), (0, 0)])"
    by (subst route_loop.simps) simp
  have "route_loop [(0, 180), (0, 0)] [- 1] [(0, 0)] = Inr ([- 1, 1], [(0, 0), (0, 0)])"
    by (subst route_loop.simps) (simp add: py_index_def h1 h2 l)
  then show ?thesis by (simp add: optimize_route_def py_index_def)
qed

text \<open>
  C10: there is a list of two points and a negative start index in \<open>[-n, -1]\<close> on which
  \<open>optimize_route\<close> returns without an error a route that is not a permutation of the
  input: one input point is missing, and the point at the corresponding positive index
  occurs twice.
\<close>

theorem optimize_route_negative_start:
  "\<exists>points start_index route.
      2 \<le> length points \<and> - int (length points) \<le> start_index \<and> start_index < 0
      \<and> optimize_route points start_index = Inr route
      \<and> mset route \<noteq> mset points
      \<and> (\<exists>p. p \<in> set points \<and> p \<notin> set route)
      \<and> count (mset route) (points ! nat (int (length points) + start_index)) = 2"
proof (intro exI conjI)
  show "optimize_route [(0, 180), (0, 0)] (- 1) = Inr [(0, 0), (0, 0)]"
    by (rule negative_start_run)
  show "(0, 180) \<in> set [(0, 180), (0, 0 :: real) :: point]" by simp
  show "(0, 180) \<notin> set [(0, 0), (0, 0 :: real) :: point]" by simp
qed simp_all

text \<open>
  C5 as stated fails: \<open>-1\<close> is not an index in \<open>[0, n-1]\<close> of a one-point list, and
  \<open>optimize_route\<close> returns a route instead of raising.
\<close>

theorem optimize_route_negative_no_error:
  "- 1 \<notin> {0..<int (length [(0, 0) :: point])} \<and> optimize_route [(0, 0)] (- 1) = Inr [(0, 0)]"
  by (simp add: optimize_route_def py_index_def route_loop.simps)

section \<open>Properties of the clustering and of the pipeline\<close>

lemma no_error_subset:
  assumes "no_error hav rows" "set pts \<subseteq> set rows"
  shows "no_error hav pts"
  using assms unfolding no_error_def by blast

lemma optimize_route_by_total:
  assumes "no_error hav pts"
  shows "\<exists>route. optimize_route_by hav pts 0 = Inr route"
proof (cases "pts = []")
  case True
  then show ?thesis by (simp add: optimize_route_by_def)
next
  case False
  then have le: "length [0 :: int] \<le> length pts" by (cases pts) simp_all
  have sub: "set [pts ! 0] \<subseteq> set pts" using False by simp
  from route_loop_by_run [OF assms sub _ _ le]
  obtain vF rF where "route_loop_by hav pts [0] [pts ! 0] = Inr (vF, rF)" by auto
  moreover have "py_index pts 0 = Inr (pts ! 0)" using False by (simp add: py_index_def)
  ultimately show ?thesis using False by (simp add: optimize_route_by_def)
qed

lemma digit_char_inj: "a < 10 \<Longrightarrow> b < 10 \<Longrightarrow> digit_char a = digit_char b \<Longrightarrow> a = b"
proof -
  assume a: "a < 10" and b: "b < 10" and e: "digit_char a = digit_char b"
  have m: "48 + a \<in> {0..<256}" "48 + b \<in> {0..<256}" using a b by simp_all
  from e have "char_of (48 + a) = (char_of (48 + b) :: char)" by (simp add: digit_char_def)
  from inj_onD [OF inj_on_char_of_nat this m] show ?thesis by simp
qed

lemma str_nat_nonempty: "str_nat n \<noteq> []"
  by (subst str_nat.simps) simp

lemma str_nat_inj: "str_nat n = str_nat m \<Longrightarrow> n = m"
proof (induction n arbitrary: m rule: str_nat.induct)
  case (1 n)
  show ?case
  proof (cases "n < 10")
    case n: True
    show ?thesis
    proof (cases "m < 10")
      case True
      with n "1.prems" show ?thesis
        by (subst (asm) str_nat.simps, subst (asm) (2) str_nat.simps) (simp add: digit_char_inj)
    next
      case False
      with n "1.prems" str_nat_nonempty [of "m div 10"] show ?thesis
        by (subst (asm) str_nat.simps, subst (asm) (2) str_nat.simps) simp
    qed
  next
    case n: False
    show ?thesis
    proof (cases "m < 10")
      case True
      with n "1.prems" str_nat_nonempty [of "n div 10"] show ?thesis
        by (subst (asm) str_nat.simps, subst (asm) (2) str_nat.simps) simp
    next
      case False
      with n "1.prems" have e: "str_nat (n div 10) = str_nat (m div 10)"
        and d: "digit_char (n mod 10) = digit_char (m mod 10)"
        by (subst (asm) str_nat.simps, subst (asm) (2) str_nat.simps, simp)+
      from "1.IH" [OF n e] have q: "n div 10 = m div 10" .
      from d have r: "n mod 10 = m mod 10" by (intro digit_char_inj) simp_all
      have "n = 10 * (n div 10) + n mod 10" by simp
      also have "\<dots> = 10 * (m div 10) + m mod 10" by (simp only: q r)
      also have "\<dots> = m" by simp
      finally show ?thesis .
    qed
  qed
qed

lemma str_int_inj: "0 \<le> a \<Longrightarrow> 0 \<le> b \<Longrightarrow> str_int a = str_int b \<Longrightarrow> a = b"
  by (auto simp: str_int_def dest: str_nat_inj)

lemma update_fresh: "k \<notin> fst ` set al \<Longrightarrow> AList.update k v al = al @ [(k, v)]"
  by (induction al) auto

lemma cluster_hotspots_Inr:
  assumes "cluster_hotspots fit_predict st df lat_col lon_col n_clusters = Inr (st', df', centers)"
  shows "\<exists>coords labels.
           values2 (st df) lat_col lon_col = Inr coords
         \<and> fit_predict coords n_clusters = Inr (labels, centers)
         \<and> length labels = index_len (st df)
         \<and> df' = df
         \<and> st' = st(df := (st df)\<lparr>cols := AList.update ''Cluster'' (IntCol (map int labels)) (cols (st df))\<rparr>)"
  using assms
  by (auto simp: cluster_hotspots_def set_col_def split: sum.splits prod.splits if_splits)

lemma get_col_update_same: "get_col (d\<lparr>cols := AList.update c col (cols d)\<rparr>) c = Inr col"
  by (simp add: get_col_def update_conv')

lemma get_col_update_other:
  "a \<noteq> c \<Longrightarrow> get_col (d\<lparr>cols := AList.update c col (cols d)\<rparr>) a = get_col d a"
  by (simp add: get_col_def update_conv')

lemma get_col_update_Inr:
  assumes "get_col d a = Inr ca"
  shows "\<exists>ca'. get_col (d\<lparr>cols := AList.update c col (cols d)\<rparr>) a = Inr ca'"
  using assms by (auto simp: get_col_def update_conv' split: option.splits)

lemma values2_update_Inr:
  assumes "values2 d a b = Inr rows"
  shows "\<exists>rows'. values2 (d\<lparr>cols := AList.update c col (cols d)\<rparr>) a b = Inr rows'"
proof -
  from assms obtain ca cb where "get_col d a = Inr ca" "get_col d b = Inr cb"
    by (auto simp: values2_def split: sum.splits)
  from get_col_update_Inr [OF this(1), of c col] get_col_update_Inr [OF this(2), of c col]
  show ?thesis by (auto simp: values2_def)
qed

lemma values2_update_other:
  "a \<noteq> c \<Longrightarrow> b \<noteq> c \<Longrightarrow>
   values2 (d\<lparr>cols := AList.update c col (cols d)\<rparr>) a b = values2 d a b"
  by (simp add: values2_def get_col_update_other split: sum.splits)

lemma members_of_subset: "set (members_of ls rows c) \<subseteq> set rows"
  by (auto simp: members_of_def dest: set_zip_rightD)

lemma collect_routes_run:
  assumes "cluster_labels d = Inr ls" "values2 d lat_col lon_col = Inr rows"
    "no_error hav rows"
    "\<forall>c\<in>set ids. 0 \<le> c" "distinct ids"
    "\<forall>c\<in>set ids. ''Cluster_'' @ str_int c \<notin> fst ` set acc"
  shows "collect_routes hav d lat_col lon_col ids acc =
           Inr (acc @ map (\<lambda>c. (''Cluster_'' @ str_int c,
                               projr (optimize_route_by hav (members_of ls rows c) 0))) ids)"
  using assms(4-6)
proof (induction ids arbitrary: acc)
  case Nil
  then show ?case by simp
next
  case (Cons c ids)
  let ?key = "\<lambda>c. ''Cluster_'' @ str_int c"
  have pts: "cluster_points d lat_col lon_col c = Inr (members_of ls rows c)"
    by (simp add: cluster_points_def assms(1,2) members_of_def)
  have "no_error hav (members_of ls rows c)"
    by (rule no_error_subset [OF assms(3) members_of_subset])
  from optimize_route_by_total [OF this] obtain r where
    r: "optimize_route_by hav (members_of ls rows c) 0 = Inr r" by blast
  then have pr: "projr (optimize_route_by hav (members_of ls rows c) 0) = r" by simp
  from Cons.prems have fresh: "?key c \<notin> fst ` set acc" by simp
  have next_fresh: "\<forall>c'\<in>set ids. ?key c' \<notin> fst ` set (acc @ [(?key c, r)])"
  proof
    fix c' assume c': "c' \<in> set ids"
    with Cons.prems have "c' \<noteq> c" "0 \<le> c'" "0 \<le> c" by auto
    then have "str_int c' \<noteq> str_int c" using str_int_inj by blast
    moreover from c' Cons.prems have "?key c' \<notin> fst ` set acc" by simp
    ultimately show "?key c' \<notin> fst ` set (acc @ [(?key c, r)])" by simp
  qed
  have upd: "AList.update (?key c) r acc = acc @ [(?key c, r)]"
    by (rule update_fresh [OF fresh])
  from Cons.prems have "\<forall>c\<in>set ids. 0 \<le> c" "distinct ids" by simp_all
  from Cons.IH [OF this next_fresh]
  show ?case
    by (simp add: pts r pr upd [simplified])
qed

lemma lloyd_length: "length (fst (lloyd cap coords centers labels)) = length coords"
  by (induction cap arbitrary: centers labels) (auto simp: Let_def)

lemma lloyd_converged:
  "map (assign centers) coords = labels \<Longrightarrow>
   lloyd cap coords centers labels = (labels, recompute coords labels centers)"
  by (cases cap) (simp_all add: Let_def)

lemma lloyd_step:
  "map (assign centers) coords \<noteq> labels \<Longrightarrow> 0 < cap \<Longrightarrow>
   lloyd cap coords centers labels =
     lloyd (cap - 1) coords (recompute coords (map (assign centers) coords) centers)
       (map (assign centers) coords)"
  by (cases cap) (simp_all add: Let_def)

lemma str_int_0: "str_int 0 = ''0''"
  by code_simp

lemma str_int_1: "str_int 1 = ''1''"
  by code_simp


lemma kmeans_frame3:
  "kmeans_fit_predict seed_last 300 [(0, 0), (0, 1), (0, 10)] 2 =
     Inr ([1, 1, 0], [(0, 10), (0, 1 / 2)])"
proof -
  let ?cs = "[(0, 0), (0, 1), (0, 10) :: point]"
  have a1: "assign [(0, 10), (0, 1)] (0, 0) = 1" "assign [(0, 10), (0, 1)] (0, 1) = 1"
    "assign [(0, 10), (0, 1)] (0, 10) = 0"
    by (simp_all add: assign_def sqdist_def)
  have r1: "recompute ?cs [Suc 0, Suc 0, 0] [(0, 10), (0, 1)] = [(0, 10), (0, 1 / 2)]"
    by (simp add: recompute_def members_def mean_point_def)
  have a2: "assign [(0, 10), (0, 1 / 2)] (0, 0) = 1" "assign [(0, 10), (0, 1 / 2)] (0, 1) = 1"
    "assign [(0, 10), (0, 1 / 2)] (0, 10) = 0"
    by (simp_all add: assign_def sqdist_def power2_eq_square)
  have r2: "recompute ?cs [Suc 0, Suc 0, 0] [(0, 10), (0, 1 / 2)] = [(0, 10), (0, 1 / 2)]"
    by (simp add: recompute_def members_def mean_point_def)
  have "lloyd 299 ?cs [(0, 10), (0, 1)] [] = lloyd 298 ?cs [(0, 10), (0, 1 / 2)] [1, 1, 0]"
    by (subst lloyd_step) (simp_all add: a1 r1)
  also have "\<dots> = ([1, 1, 0], [(0, 10), (0, 1 / 2)])"
    by (subst lloyd_converged) (simp_all add: a2 r2)
  finally show ?thesis by (simp add: kmeans_fit_predict_def seed_last_def)
qed

lemma values2_frame1: "values2 (store1 r) ''Latitude'' ''Longitude'' = Inr [(0, 0)]"
  by (simp add: values2_def get_col_def store1_def frame1_def)

lemma values2_frame3:
  "values2 (store3 r) ''Latitude'' ''Longitude'' = Inr [(0, 0), (0, 1), (0, 10)]"
  by (simp add: values2_def get_col_def store3_def frame3_def)


lemma cluster_frame3:
  "cluster_hotspots (kmeans_fit_predict seed_last 300) store3 0 ''Latitude'' ''Longitude'' 2 =
     Inr (store3(0 := frame3\<lparr>cols := cols frame3 @ [(''Cluster'', IntCol [1, 1, 0])]\<rparr>), 0,
          [(0, 10), (0, 1 / 2)])"
  by (simp add: cluster_hotspots_def values2_frame3 kmeans_frame3 set_col_def)
     (simp add: store3_def frame3_def)




text \<open>
  C3: when the clustering succeeds, \<open>generate_collection_routes\<close> visits the distinct
  cluster ids in ascending order (\<open>ids\<close>, the order of the keys of the result), runs the
  route builder from start index \<open>0\<close> on the rows of each cluster, taken in the order of
  the frame, and returns one entry for each cluster id, with the key \<open>Cluster_<id>\<close> and
  that route as its value.  The distance function \<open>hav\<close> is assumed to raise no error
  between rows of the frame.
\<close>

theorem generate_collection_routes_correct:
  assumes "cluster_hotspots fit_predict st df lat_col lon_col n_clusters = Inr (st', df', centers)"
  shows "\<exists>labels rows.
           cluster_labels (st' df') = Inr labels
         \<and> values2 (st' df') lat_col lon_col = Inr rows
         \<and> (\<exists>coords nl.
               values2 (st df) lat_col lon_col = Inr coords
             \<and> fit_predict coords n_clusters = Inr (nl, centers)
             \<and> labels = map int nl
             \<and> (lat_col \<noteq> ''Cluster'' \<and> lon_col \<noteq> ''Cluster'' \<longrightarrow> rows = coords))
         \<and> (no_error hav rows \<longrightarrow>
              (\<exists>ids routes.
                 generate_collection_routes fit_predict hav st df lat_col lon_col n_clusters =
                   Inr (st', routes)
               \<and> sorted ids \<and> distinct ids \<and> set ids = set labels
               \<and> map fst routes = map (\<lambda>c. ''Cluster_'' @ str_int c) ids
               \<and> map (\<lambda>(key, route). Inr route) routes =
                   map (\<lambda>c. optimize_route_by hav
                               (map snd (filter (\<lambda>(l, p). l = c) (zip labels rows))) 0) ids
               \<and> distinct (map fst routes)))"
proof -
  let ?key = "\<lambda>c. ''Cluster_'' @ str_int c"
  from cluster_hotspots_Inr [OF assms] obtain coords nl where
    v: "values2 (st df) lat_col lon_col = Inr coords"
    and f: "fit_predict coords n_clusters = Inr (nl, centers)"
    and d: "df' = df"
    and s: "st' = st(df := (st df)\<lparr>cols := AList.update ''Cluster'' (IntCol (map int nl)) (cols (st df))\<rparr>)"
    by blast
  let ?ls = "map int nl"
  let ?ids = "sort (remdups ?ls)"
  from s d have lab: "cluster_labels (st' df') = Inr ?ls"
    by (simp add: cluster_labels_def get_col_update_same)
  from values2_update_Inr [OF v, of "''Cluster''" "IntCol ?ls"] s d obtain rows where
    rows: "values2 (st' df') lat_col lon_col = Inr rows" by auto
  have same: "lat_col \<noteq> ''Cluster'' \<and> lon_col \<noteq> ''Cluster'' \<longrightarrow> rows = coords"
  proof
    assume "lat_col \<noteq> ''Cluster'' \<and> lon_col \<noteq> ''Cluster''"
    then have "values2 (st' df') lat_col lon_col = values2 (st df) lat_col lon_col"
      using s d by (simp add: values2_update_other)
    with rows v show "rows = coords" by simp
  qed
  have main: "\<exists>ids routes.
                 generate_collection_routes fit_predict hav st df lat_col lon_col n_clusters =
                   Inr (st', routes)
               \<and> sorted ids \<and> distinct ids \<and> set ids = set ?ls
               \<and> map fst routes = map ?key ids
               \<and> map (\<lambda>(key, route). Inr route) routes =
                   map (\<lambda>c. optimize_route_by hav
                               (map snd (filter (\<lambda>(l, p). l = c) (zip ?ls rows))) 0) ids
               \<and> distinct (map fst routes)"
    if ne: "no_error hav rows"
  proof -
    let ?opt = "\<lambda>c. optimize_route_by hav (members_of ?ls rows c) 0"
    let ?routes = "map (\<lambda>c. (?key c, projr (?opt c))) ?ids"
    have nonneg: "\<forall>c\<in>set ?ids. 0 \<le> c" by auto
    have dist: "distinct ?ids" by simp
    have "collect_routes hav (st' df') lat_col lon_col ?ids [] = Inr ([] @ ?routes)"
      by (rule collect_routes_run [OF lab rows ne nonneg dist]) simp
    then have run: "collect_routes hav (st' df') lat_col lon_col ?ids [] = Inr ?routes" by simp
    have gen: "generate_collection_routes fit_predict hav st df lat_col lon_col n_clusters =
                 Inr (st', ?routes)"
      by (simp add: generate_collection_routes_def assms lab run)
    have keys: "map fst ?routes = map ?key ?ids" by (simp add: comp_def)
    have inj: "inj_on ?key (set ?ids)"
    proof (rule inj_onI)
      fix a b assume "a \<in> set ?ids" "b \<in> set ?ids" "?key a = ?key b"
      with nonneg have "0 \<le> a" "0 \<le> b" "str_int a = str_int b" by auto
      then show "a = b" by (rule str_int_inj)
    qed
    have dk: "distinct (map fst ?routes)"
      unfolding keys using dist inj by (simp add: distinct_map)
    have tot: "Inr (projr (?opt c)) = ?opt c" for c
    proof -
      have "no_error hav (members_of ?ls rows c)"
        by (rule no_error_subset [OF ne members_of_subset])
      from optimize_route_by_total [OF this] obtain r where "?opt c = Inr r" by blast
      then show ?thesis by simp
    qed
    have vals: "map (\<lambda>(key, route). Inr route) ?routes =
                  map (\<lambda>c. optimize_route_by hav
                              (map snd (filter (\<lambda>(l, p). l = c) (zip ?ls rows))) 0) ?ids"
      using tot by (simp add: comp_def members_of_def)
    have so: "sorted ?ids" by simp
    have se: "set ?ids = set ?ls" by simp
    from gen so dist se keys vals dk show ?thesis by blast
  qed
  from lab rows v f same main show ?thesis by blast
qed

lemma routes_frame3:
  "generate_collection_routes (kmeans_fit_predict seed_last 300) haversine store3 0
     ''Latitude'' ''Longitude'' 2 =
   Inr (store3(0 := frame3\<lparr>cols := cols frame3 @ [(''Cluster'', IntCol [1, 1, 0])]\<rparr>),
        [(''Cluster_0'', [(0, 10)]), (''Cluster_1'', [(0, 0), (0, 1)])])"
proof -
  have h: "haversine 0 0 0 1 = Inr (6371 * (2 * (1 * pi / 360)))"
    using equator [of 1 0] by simp
  have l2: "route_loop_by haversine [(0, 0), (0, 1)] [0, 1] [(0, 0), (0, 1)] =
              Inr ([0, 1], [(0, 0), (0, 1)])"
    by (subst route_loop_by.simps) simp
  have l1: "route_loop_by haversine [(0, 0), (0, 1)] [0] [(0, 0)] =
              Inr ([0, 1], [(0, 0), (0, 1)])"
    by (subst route_loop_by.simps) (simp add: py_index_def h l2)
  have o1: "optimize_route_by haversine [(0, 0), (0, 1)] 0 = Inr [(0, 0), (0, 1)]"
    by (simp add: optimize_route_by_def py_index_def l1)
  have l0: "route_loop_by haversine [(0, 10)] [0] [(0, 10)] = Inr ([0], [(0, 10)])"
    by (subst route_loop_by.simps) simp
  have o0: "optimize_route_by haversine [(0, 10)] 0 = Inr [(0, 10)]"
    by (simp add: optimize_route_by_def py_index_def l0)
  show ?thesis
    by (simp add: generate_collection_routes_def cluster_frame3)
       (simp add: cluster_labels_def cluster_points_def get_col_def values2_def frame3_def
          str_int_0 str_int_1 o0 o1)
qed

theorem generate_collection_routes_correct_witness:
  "cluster_hotspots (kmeans_fit_predict seed_last 300) store3 0 ''Latitude'' ''Longitude'' 2 =
     Inr (store3(0 := frame3\<lparr>cols := cols frame3 @ [(''Cluster'', IntCol [1, 1, 0])]\<rparr>), 0,
          [(0, 10), (0, 1 / 2)])
   \<and> generate_collection_routes (kmeans_fit_predict seed_last 300) haversine store3 0
       ''Latitude'' ''Longitude'' 2 =
     Inr (store3(0 := frame3\<lparr>cols := cols frame3 @ [(''Cluster'', IntCol [1, 1, 0])]\<rparr>),
          [(''Cluster_0'', [(0, 10)]), (''Cluster_1'', [(0, 0), (0, 1)])])
   \<and> (\<exists>labels rows.
         cluster_labels ((store3(0 := frame3\<lparr>cols := cols frame3 @ [(''Cluster'', IntCol [1, 1, 0])]\<rparr>)) 0)
           = Inr labels
       \<and> values2 ((store3(0 := frame3\<lparr>cols := cols frame3 @ [(''Cluster'', IntCol [1, 1, 0])]\<rparr>)) 0)
           ''Latitude'' ''Longitude'' = Inr rows
       \<and> no_error haversine rows
       \<and> (\<exists>ids routes.
             generate_collection_routes (kmeans_fit_predict seed_last 300) haversine store3 0
               ''Latitude'' ''Longitude'' 2 =
               Inr (store3(0 := frame3\<lparr>cols := cols frame3 @ [(''Cluster'', IntCol [1, 1, 0])]\<rparr>),
                    routes)
           \<and> sorted ids \<and> distinct ids \<and> set ids = set labels
           \<and> map fst routes = map (\<lambda>c. ''Cluster_'' @ str_int c) ids
           \<and> map (\<lambda>(key, route). Inr route) routes =
               map (\<lambda>c. optimize_route_by haversine
                           (map snd (filter (\<lambda>(l, p). l = c) (zip labels rows))) 0) ids
           \<and> distinct (map fst routes)))"
  using generate_collection_routes_correct [OF cluster_frame3, of haversine]
    cluster_frame3 routes_frame3 no_error_haversine
  by blast

text \<open>
  C4, for the clusterer of the specification in place of the missing \<open>KMeans\<close>: on a
  frame with the two coordinate columns, of \<open>n\<close> rows, \<open>cluster_hotspots\<close> fails with
  \<open>InvalidParameter\<close> exactly when \<open>k > n\<close> or \<open>k < 1\<close> or the frame has no rows, and it
  succeeds exactly for \<open>1 \<le> k \<le> n\<close> on a frame with rows.
\<close>

theorem cluster_hotspots_invalid_parameter:
  assumes "values2 (st df) lat_col lon_col = Inr coords" "index_len (st df) = length coords"
  shows "(cluster_hotspots (kmeans_fit_predict init max_iter) st df lat_col lon_col k =
            Inl InvalidParameter)
           = (int (length coords) < k \<or> k < 1 \<or> coords = [])
         \<and> (\<exists>st' df' centers.
               cluster_hotspots (kmeans_fit_predict init max_iter) st df lat_col lon_col k =
                 Inr (st', df', centers))
           = (1 \<le> k \<and> k \<le> int (length coords) \<and> coords \<noteq> [])"
proof (cases "k < 1 \<or> int (length coords) < k \<or> coords = []")
  case True
  then have "cluster_hotspots (kmeans_fit_predict init max_iter) st df lat_col lon_col k =
               Inl InvalidParameter"
    by (simp add: cluster_hotspots_def assms(1) kmeans_fit_predict_def)
  with True show ?thesis by auto
next
  case False
  obtain labels centers where
    l: "lloyd (max_iter - 1) coords (init coords (nat k)) [] = (labels, centers)"
    by (cases "lloyd (max_iter - 1) coords (init coords (nat k)) []")
  from lloyd_length [of "max_iter - 1" coords "init coords (nat k)" "[]"] l
  have len: "length labels = length coords" by simp
  from False l have "kmeans_fit_predict init max_iter coords k = Inr (labels, centers)"
    by (simp add: kmeans_fit_predict_def)
  then have "cluster_hotspots (kmeans_fit_predict init max_iter) st df lat_col lon_col k =
               Inr (st(df := (st df)\<lparr>cols := AList.update ''Cluster'' (IntCol (map int labels)) (cols (st df))\<rparr>),
                    df, centers)"
    by (simp add: cluster_hotspots_def assms set_col_def len)
  with False show ?thesis by auto
qed

theorem cluster_hotspots_invalid_parameter_witness:
  "values2 (store1 0) ''Latitude'' ''Longitude'' = Inr [(0, 0)]
   \<and> index_len (store1 0) = length [(0, 0) :: point]
   \<and> cluster_hotspots (kmeans_fit_predict seed_last 300) store1 0 ''Latitude'' ''Longitude'' 2 =
       Inl InvalidParameter
   \<and> cluster_hotspots (kmeans_fit_predict seed_last 300) store1 0 ''Latitude'' ''Longitude'' 0 =
       Inl InvalidParameter
   \<and> (\<exists>st' df' centers.
         cluster_hotspots (kmeans_fit_predict seed_last 300) store1 0 ''Latitude'' ''Longitude'' 1 =
           Inr (st', df', centers))"
proof -
  have v: "values2 (store1 0) ''Latitude'' ''Longitude'' = Inr [(0, 0)]" by (rule values2_frame1)
  have i: "index_len (store1 0) = length [(0, 0) :: point]" by (simp add: store1_def frame1_def)
  from cluster_hotspots_invalid_parameter
      [where st = store1 and df = 0 and init = seed_last and max_iter = 300 and k = 2, OF v i]
    cluster_hotspots_invalid_parameter
      [where st = store1 and df = 0 and init = seed_last and max_iter = 300 and k = 0, OF v i]
    cluster_hotspots_invalid_parameter
      [where st = store1 and df = 0 and init = seed_last and max_iter = 300 and k = 1, OF v i]
    v i
  show ?thesis by simp
qed

end
